theory Spec2Isabelle
  imports Complex_Main "HOL-Library.Multiset" "HOL-Library.Sublist"
begin

section \<open>Common data\<close>

text \<open>
  The scheduler of \<open>pogom/search.py\<close> works on Python numbers. Times past the hour,
  distances and speeds are modelled as real numbers (Python's \<open>int\<close> values are the
  integral ones); rounding of floating point arithmetic is not modelled.
\<close>

datatype py_error = IndexError | ValueError | ZeroDivisionError

text \<open>
  A spawn point is a dictionary with the keys \<open>lat\<close>, \<open>lng\<close> and \<open>time\<close>;
  \<open>assign_spawns\<close> adds the key \<open>worker\<close>. Any further keys travel in the
  extension part of the record.
\<close>

record spawn =
  lat :: real
  lng :: real
  time :: real
  worker :: "nat option"

text \<open>Python subscripting \<open>xs[i]\<close>: a negative index counts from the end.\<close>

definition item :: "'a list \<Rightarrow> int \<Rightarrow> py_error + 'a" where
  "item xs i =
     (if 0 \<le> i \<and> i < int (length xs) then Inr (xs ! nat i)
      else if i < 0 \<and> - int (length xs) \<le> i then Inr (xs ! nat (int (length xs) + i))
      else Inl IndexError)"

section \<open>Times past the hour\<close>

text \<open>\<open>timeDif\<close>, lines 124 to 130.\<close>

definition timeDif :: "real \<Rightarrow> real \<Rightarrow> real" where
  "timeDif a b =
     (let dif = a - b;
          dif = (if dif < - 1800 then dif + 3600 else dif);
          dif = (if dif > 1800 then dif - 3600 else dif)
      in dif)"

section \<open>The schedule cursor\<close>

text \<open>
  \<open>SbSearch\<close>, lines 134 to 143. The \<open>while\<close> loop is the recursion
  \<open>SbSearch_loop\<close> on the pair \<open>first\<close>, \<open>last\<close> (written \<open>last'\<close>).
\<close>

function SbSearch_loop :: "('a spawn_scheme) list \<Rightarrow> real \<Rightarrow> int \<Rightarrow> int \<Rightarrow> py_error + int" where
  "SbSearch_loop Slist T first last' =
     (if first < last' then
        (let mp = (first + last') div 2 in
         case item Slist mp of
           Inl e \<Rightarrow> Inl e
         | Inr p \<Rightarrow>
             if time p < T then SbSearch_loop Slist T (mp + 1) last'
             else SbSearch_loop Slist T first mp)
      else Inr first)"
  by pat_completeness auto
termination
  by (relation "measure (\<lambda>(Slist, T, first, last'). nat (last' - first))") auto

declare SbSearch_loop.simps [simp del]

definition SbSearch :: "('a spawn_scheme) list \<Rightarrow> real \<Rightarrow> py_error + int" where
  "SbSearch Slist T = SbSearch_loop Slist T 0 (int (length Slist) - 1)"

section \<open>Location steps\<close>

text \<open>
  A location of this program is a triple of latitude, longitude (in degrees) and
  altitude. \<open>get_new_coords\<close>, lines 47 to 65, over the real numbers, reads the
  position handed to it at its indices 0 and 1 only and returns a list of two numbers, so
  its argument and result are pairs of latitude and longitude.
\<close>

type_synonym coords = "real \<times> real"












section \<open>Worker sessions\<close>

text \<open>
  What a worker thread does to the outside world is recorded as a trace of events, in
  order: calls of the API session, \<open>task_done\<close> on the queue, log lines and sleeps.
  Log lines and status messages are named by a \<open>notice\<close> instead of their formatted text.
\<close>

datatype notice =
    Searching | Credentials_valid | Login_failed | Login_successful | Abandoning
  | Possibly_banned | Download_failed | Parsing_failed | Completed | Waiting_scan_delay
  | Cant_keep_up | Skipping

datatype event =
    SetPosition | SetAuthentication | MapRequest | ParseMap | TaskDone
  | Sleep real | Log notice

datatype exn = TooManyLoginAttempts | NameError | OtherException

datatype exit = Normal | Raised exn

text \<open>
  The collaborators the worker calls are outside the repository. Their answers are
  given by the environment: the \<open>n\<close>-th call of \<open>set_authentication\<close> succeeds, raises
  \<open>AuthException\<close> or raises something else; the \<open>n\<close>-th map request comes back
  empty (\<open>map_request\<close> turns every exception into \<open>False\<close>), or with a response that
  \<open>parse_map\<close> either counts, rejects with \<open>KeyError\<close> or fails on otherwise; at the
  \<open>n\<close>-th call of \<open>check_login\<close> the ticket has so many seconds left
  (\<open>None\<close>: no provider or no ticket).
\<close>

datatype auth_result = AuthOk | AuthException | AuthOther

datatype scan_result = NoResponse | Found int | ParseKeyError | ParseOther

record env =
  ticket_remaining :: "nat \<Rightarrow> real option"
  set_authentication :: "nat \<Rightarrow> auth_result"
  map_objects :: "nat \<Rightarrow> scan_result"

text \<open>
  The worker's state: the counters and message of its \<open>status\<close> dictionary, the local
  variable \<open>sleep_time\<close> of the thread function (\<open>None\<close> while it is unbound), the
  trace, and how many calls of each collaborator were made.
\<close>

record worker =
  success :: int
  fail :: int
  noitems :: int
  skip :: int
  message :: "notice option"
  sleep_time :: "real option"
  trace :: "event list"
  login_checks :: nat
  auth_calls :: nat
  map_calls :: nat

definition emit :: "event list \<Rightarrow> worker \<Rightarrow> worker" where
  "emit es w = w\<lparr>trace := trace w @ es\<rparr>"

text \<open>\<open>check_login\<close>, lines 773 to 800; \<open>login_loop\<close> is its \<open>while\<close> loop.\<close>

function login_loop :: "env \<Rightarrow> int \<Rightarrow> real \<Rightarrow> int \<Rightarrow> worker \<Rightarrow> exit \<times> worker" where
  "login_loop e login_retries login_delay i w =
     (if i < login_retries then
        (let answer = set_authentication e (auth_calls w);
             w = emit [SetAuthentication] (w\<lparr>auth_calls := auth_calls w + 1\<rparr>)
         in case answer of
              AuthOk \<Rightarrow> (Normal, w)
            | AuthException \<Rightarrow>
                if i \<ge> login_retries then (Raised TooManyLoginAttempts, w)
                else login_loop e login_retries login_delay (i + 1)
                       (emit [Log Login_failed, Sleep login_delay] w)
            | AuthOther \<Rightarrow> (Raised OtherException, w))
      else (Normal, w))"
  by pat_completeness auto
termination
  by (relation "measure (\<lambda>(e, login_retries, login_delay, i, w). nat (login_retries - i))") auto

declare login_loop.simps [simp del]

definition check_login :: "env \<Rightarrow> int \<Rightarrow> real \<Rightarrow> worker \<Rightarrow> exit \<times> worker" where
  "check_login e login_retries login_delay w =
     (let remaining = ticket_remaining e (login_checks w);
          w = w\<lparr>login_checks := login_checks w + 1\<rparr>
      in if (case remaining of None \<Rightarrow> False | Some remaining_time \<Rightarrow> remaining_time > 60)
         then (Normal, emit [Log Credentials_valid] w)
         else
           (let r = login_loop e login_retries login_delay 0 (emit [SetPosition] w)
            in case fst r of
                 Raised x \<Rightarrow> r
               | Normal \<Rightarrow> (Normal, emit [Log Login_successful] (snd r))))"

text \<open>
  The sleep after an abandoned job, lines 625 to 631 and again lines 723 to 729, from
  \<open>long_sleep_time = 0\<close>.
\<close>

function long_sleep :: "int \<Rightarrow> worker \<Rightarrow> worker" where
  "long_sleep long_sleep_time w =
     (if long_sleep_time < 2 * 60 * 20 then
        long_sleep (long_sleep_time + 300)
          (emit [Log Possibly_banned, Sleep 300] (w\<lparr>message := Some Possibly_banned\<rparr>))
      else w)"
  by pat_completeness auto
termination
  by (relation "measure (\<lambda>(long_sleep_time, w). nat (2400 - long_sleep_time))") auto

declare long_sleep.simps [simp del]

text \<open>
  The request and retry loop of \<open>search_worker_thread\<close>, lines 609 to 669, from
  \<open>failed_total = 0\<close>.
\<close>

function scan_loop :: "env \<Rightarrow> int \<Rightarrow> real \<Rightarrow> int \<Rightarrow> real \<Rightarrow> int \<Rightarrow> worker \<Rightarrow> exit \<times> worker" where
  "scan_loop e scan_retries scan_delay login_retries login_delay failed_total w =
     (if failed_total \<ge> scan_retries then
        (Normal, long_sleep 0 (emit [Log Abandoning, TaskDone] (w\<lparr>message := Some Abandoning\<rparr>)))
      else
        (let w = w\<lparr>sleep_time := Some (scan_delay * (1 + of_int failed_total))\<rparr>;
             r = check_login e login_retries login_delay w
         in case fst r of
              Raised x \<Rightarrow> r
            | Normal \<Rightarrow>
                (let w = snd r;
                     answer = map_objects e (map_calls w);
                     w = emit [MapRequest] (w\<lparr>map_calls := map_calls w + 1\<rparr>)
                 in case answer of
                      NoResponse \<Rightarrow>
                        scan_loop e scan_retries scan_delay login_retries login_delay (failed_total + 1)
                          (emit [Log Download_failed, Sleep (scan_delay * (1 + of_int failed_total))]
                             (w\<lparr>fail := fail w + 1, message := Some Download_failed\<rparr>))
                    | Found findCount \<Rightarrow>
                        (Normal,
                         (let w = emit [ParseMap, Log Completed, TaskDone] w
                          in if findCount > 0 then w\<lparr>success := success w + 1\<rparr>
                             else w\<lparr>noitems := noitems w + 1\<rparr>))
                    | ParseKeyError \<Rightarrow>
                        scan_loop e scan_retries scan_delay login_retries login_delay (failed_total + 1)
                          (emit [ParseMap, Log Parsing_failed, Sleep (scan_delay * (1 + of_int failed_total))]
                             (w\<lparr>fail := fail w + 1, message := Some Parsing_failed\<rparr>))
                    | ParseOther \<Rightarrow> (Raised OtherException, emit [ParseMap] w))))"
  by pat_completeness auto
termination
  by (relation "measure (\<lambda>(e, scan_retries, scan_delay, login_retries, login_delay, failed_total, w).
        nat (scan_retries - failed_total))") auto

declare scan_loop.simps [simp del]

text \<open>
  The same loop in \<open>search_worker_thread_ss\<close>, lines 715 to 759: no status message on
  abandoning, and a second sleep after a parsing failure (line 759).
\<close>

function scan_loop_ss :: "env \<Rightarrow> int \<Rightarrow> real \<Rightarrow> int \<Rightarrow> real \<Rightarrow> int \<Rightarrow> worker \<Rightarrow> exit \<times> worker" where
  "scan_loop_ss e scan_retries scan_delay login_retries login_delay failed_total w =
     (if failed_total \<ge> scan_retries then
        (Normal, long_sleep 0 (emit [Log Abandoning, TaskDone] w))
      else
        (let w = w\<lparr>sleep_time := Some (scan_delay * (1 + of_int failed_total))\<rparr>;
             r = check_login e login_retries login_delay w
         in case fst r of
              Raised x \<Rightarrow> r
            | Normal \<Rightarrow>
                (let w = snd r;
                     answer = map_objects e (map_calls w);
                     w = emit [MapRequest] (w\<lparr>map_calls := map_calls w + 1\<rparr>)
                 in case answer of
                      NoResponse \<Rightarrow>
                        scan_loop_ss e scan_retries scan_delay login_retries login_delay (failed_total + 1)
                          (emit [Log Download_failed, Sleep (scan_delay * (1 + of_int failed_total))]
                             (w\<lparr>fail := fail w + 1, message := Some Download_failed\<rparr>))
                    | Found findCount \<Rightarrow>
                        (Normal,
                         (let w = emit [ParseMap, Log Completed, TaskDone] w
                          in if findCount > 0 then w\<lparr>success := success w + 1\<rparr>
                             else w\<lparr>noitems := noitems w + 1\<rparr>))
                    | ParseKeyError \<Rightarrow>
                        scan_loop_ss e scan_retries scan_delay login_retries login_delay (failed_total + 1)
                          (emit [ParseMap, Log Parsing_failed,
                                 Sleep (scan_delay * (1 + of_int failed_total)),
                                 Sleep (scan_delay * (1 + of_int failed_total))]
                             (w\<lparr>fail := fail w + 1, message := Some Parsing_failed\<rparr>))
                    | ParseOther \<Rightarrow> (Raised OtherException, emit [ParseMap] w))))"
  by pat_completeness auto
termination
  by (relation "measure (\<lambda>(e, scan_retries, scan_delay, login_retries, login_delay, failed_total, w).
        nat (scan_retries - failed_total))") auto

declare scan_loop_ss.simps [simp del]


text \<open>The seconds slept in a trace.\<close>

fun slept :: "event list \<Rightarrow> real" where
  "slept [] = 0"
| "slept (Sleep t # es) = t + slept es"
| "slept (ev # es) = slept es"

section \<open>The spawn assigner\<close>

text \<open>
  \<open>assign_spawns\<close>, lines 439 to 567. Speeds and delays can be \<open>float('inf')\<close>, and so
  can the limits \<open>max_speed\<close> and \<open>max_delay\<close> they are compared with: such a number is
  a real number or positive infinity.
\<close>

datatype ext = Fin real | PInf

fun ext_le :: "ext \<Rightarrow> ext \<Rightarrow> bool" where
  "ext_le (Fin a) (Fin b) = (a \<le> b)"
| "ext_le PInf (Fin b) = False"
| "ext_le a PInf = True"

definition ext_less :: "ext \<Rightarrow> ext \<Rightarrow> bool" where
  "ext_less a b = (\<not> ext_le b a)"

definition ext_max :: "ext \<Rightarrow> ext \<Rightarrow> ext" where
  "ext_max a b = (if ext_less a b then b else a)"

text \<open>Python's \<open>x % m\<close> on numbers, for a positive \<open>m\<close>: the result lies in \<open>[0, m)\<close>.\<close>

definition py_mod :: "real \<Rightarrow> real \<Rightarrow> real" where
  "py_mod x m = x - m * of_int \<lfloor>x / m\<rfloor>"

text \<open>Python's \<open>d / m\<close> for a finite \<open>d\<close>.\<close>

fun py_div :: "real \<Rightarrow> ext \<Rightarrow> py_error + real" where
  "py_div d (Fin m) = (if m = 0 then Inl ZeroDivisionError else Inr (d / m))"
| "py_div d PInf = Inr 0"

text \<open>
  A cost is the tuple \<open>(delay, s0, s1, s2)\<close>; tuples, and the pairs of a cost and a
  worker index, are compared lexicographically, as Python compares tuples. \<open>py_min\<close> is
  \<open>min\<close> on a list: the first smallest entry, \<open>ValueError\<close> on an empty list.
\<close>

type_synonym score = "ext \<times> ext \<times> ext \<times> ext"

fun score_less :: "score \<Rightarrow> score \<Rightarrow> bool" where
  "score_less (a, b, c, d) (a', b', c', d') =
     (ext_less a a' \<or> (a = a' \<and>
       (ext_less b b' \<or> (b = b' \<and>
         (ext_less c c' \<or> (c = c' \<and> ext_less d d'))))))"

fun entry_less :: "score \<times> nat \<Rightarrow> score \<times> nat \<Rightarrow> bool" where
  "entry_less (s, i) (s', i') = (score_less s s' \<or> (s = s' \<and> i < i'))"

fun py_min_from :: "score \<times> nat \<Rightarrow> (score \<times> nat) list \<Rightarrow> score \<times> nat" where
  "py_min_from m [] = m"
| "py_min_from m (x # xs) = py_min_from (if entry_less x m then x else m) xs"

fun py_min :: "(score \<times> nat) list \<Rightarrow> py_error + score \<times> nat" where
  "py_min [] = Inl ValueError"
| "py_min (x # xs) = Inr (py_min_from x xs)"

text \<open>
  The geodesic distance in metres between two positions comes from the \<open>geopy\<close>
  library; it is the parameter \<open>D\<close> of the model.
\<close>

definition dist_sp :: "(coords \<Rightarrow> coords \<Rightarrow> real) \<Rightarrow> 'a spawn_scheme \<Rightarrow> 'a spawn_scheme \<Rightarrow> real" where
  "dist_sp D sp1 sp2 = D (lat sp1, lng sp1) (lat sp2, lng sp2)"

definition speed :: "(coords \<Rightarrow> coords \<Rightarrow> real) \<Rightarrow> real \<Rightarrow> 'a spawn_scheme \<Rightarrow> 'a spawn_scheme \<Rightarrow> ext" where
  "speed D scan_delay sp1 sp2 =
     (let t = max (py_mod (time sp2 - time sp1) 3600) scan_delay
      in if t = 0 then PInf else Fin (dist_sp D sp1 sp2 / t))"

text \<open>
  \<open>insert\<close>, lines 468 to 518. \<open>slot\<close> is the index \<open>k\<close> of lines 478 to 480;
  \<open>placement\<close> is lines 482 to 513, giving \<open>k\<close>, the spawn point with its scan time
  moved, and the cost; \<open>insert_spawn\<close> is the whole function, returning the queue
  (changed when \<open>dry\<close> is false and the cost is finite) and the cost.
\<close>

fun first_index :: "'b list \<Rightarrow> 'b \<Rightarrow> nat" where
  "first_index [] x = 0"
| "first_index (y # ys) x = (if y = x then 0 else Suc (first_index ys x))"

definition slot :: "'a spawn_scheme list \<Rightarrow> 'a spawn_scheme \<Rightarrow> nat" where
  "slot queue sp =
     (let l = map (\<lambda>p. time p \<le> time sp) queue
      in if False \<in> set l then first_index l False else length l)"

definition placement ::
  "(coords \<Rightarrow> coords \<Rightarrow> real) \<Rightarrow> real \<Rightarrow> ext \<Rightarrow> 'a spawn_scheme list \<Rightarrow> 'a spawn_scheme \<Rightarrow>
   py_error + nat \<times> 'a spawn_scheme \<times> score" where
  "placement D scan_delay max_speed queue sp =
     (let k = slot queue sp;
          i = nat ((int k - 1) mod int (length queue));
          j = k mod length queue;
          sp = sp\<lparr>time := max (time sp) (time (queue ! i) + scan_delay)\<rparr>;
          s1 = speed D scan_delay (queue ! i) sp;
          s2 = speed D scan_delay sp (queue ! j)
      in if i \<noteq> j \<and> py_mod (time (queue ! j) - time (queue ! i)) 3600 < 2 * scan_delay
         then Inr (k, sp, (PInf, Fin 0, Fin 0, Fin 0))
         else if ext_le s1 max_speed \<and> ext_le s2 max_speed
         then Inr (k, sp, (Fin 0, ext_max s1 s2, s1, s2))
         else if ext_less max_speed s2
         then Inr (k, sp, (PInf, Fin 0, Fin 0, Fin 0))
         else
           (case py_div (dist_sp D (queue ! i) sp) max_speed of
              Inl err \<Rightarrow> Inl err
            | Inr q \<Rightarrow>
                (let time2wait = q - (time sp - time (queue ! i))
                 in if time2wait > py_mod (time sp - time (queue ! j)) 3600
                    then Inr (k, sp, (PInf, Fin 0, Fin 0, Fin 0))
                    else
                      (let sp = sp\<lparr>time := time sp + time2wait\<rparr>;
                           s1 = max_speed;
                           s2 = speed D scan_delay sp (queue ! j)
                       in Inr (k, sp, (Fin time2wait, ext_max s1 s2, s1, s2))))))"

definition insert_spawn ::
  "(coords \<Rightarrow> coords \<Rightarrow> real) \<Rightarrow> real \<Rightarrow> ext \<Rightarrow> 'a spawn_scheme list \<Rightarrow> 'a spawn_scheme \<Rightarrow> bool \<Rightarrow>
   py_error + 'a spawn_scheme list \<times> score" where
  "insert_spawn D scan_delay max_speed queue sp dry =
     (if length queue = 0
      then Inr (if \<not> dry then queue @ [sp] else queue, (Fin 0, max_speed, max_speed, max_speed))
      else
        (case placement D scan_delay max_speed queue sp of
           Inl err \<Rightarrow> Inl err
         | Inr (k, sp, score) \<Rightarrow>
             Inr (if \<not> dry \<and> ext_less (fst score) PInf
                  then take k queue @ [sp] @ drop k queue else queue,
                  score)))"

text \<open>
  \<open>greedy_assign\<close>, lines 522 to 540. \<open>dry_scores\<close> is the list comprehension of line
  528, \<open>assign_one\<close> the body of the loop over the sorted spawn points, on the state
  \<open>(Q, delays, bad)\<close>.
\<close>

fun dry_scores ::
  "(coords \<Rightarrow> coords \<Rightarrow> real) \<Rightarrow> real \<Rightarrow> ext \<Rightarrow> nat \<Rightarrow> 'a spawn_scheme list list \<Rightarrow> 'a spawn_scheme \<Rightarrow>
   py_error + (score \<times> nat) list" where
  "dry_scores D scan_delay max_speed i [] sp = Inr []"
| "dry_scores D scan_delay max_speed i (q # qs) sp =
     (case insert_spawn D scan_delay max_speed q sp True of
        Inl err \<Rightarrow> Inl err
      | Inr r \<Rightarrow>
          (case dry_scores D scan_delay max_speed (Suc i) qs sp of
             Inl err \<Rightarrow> Inl err
           | Inr rest \<Rightarrow> Inr ((snd r, i) # rest)))"

type_synonym 'a assignment = "'a spawn_scheme list list \<times> ext list \<times> 'a spawn_scheme list"

definition assign_one ::
  "(coords \<Rightarrow> coords \<Rightarrow> real) \<Rightarrow> real \<Rightarrow> ext \<Rightarrow> ext \<Rightarrow> 'a assignment \<Rightarrow> 'a spawn_scheme \<Rightarrow>
   py_error + 'a assignment" where
  "assign_one D scan_delay max_speed max_delay st sp =
     (case st of (Q, delays, bad) \<Rightarrow>
        (case dry_scores D scan_delay max_speed 0 Q sp of
           Inl err \<Rightarrow> Inl err
         | Inr scores \<Rightarrow>
             (case py_min scores of
                Inl err \<Rightarrow> Inl err
              | Inr (min_score, min_index) \<Rightarrow>
                  (let delay = fst min_score
                   in if ext_le delay max_delay
                      then
                        (case insert_spawn D scan_delay max_speed (Q ! min_index) sp False of
                           Inl err \<Rightarrow> Inl err
                         | Inr r \<Rightarrow>
                             Inr (Q[min_index := fst r],
                                  if ext_less (Fin 0) delay then delays @ [delay] else delays,
                                  bad))
                      else Inr (Q, delays, bad @ [sp])))))"

fun greedy_loop ::
  "(coords \<Rightarrow> coords \<Rightarrow> real) \<Rightarrow> real \<Rightarrow> ext \<Rightarrow> ext \<Rightarrow> 'a assignment \<Rightarrow> 'a spawn_scheme list \<Rightarrow>
   py_error + 'a assignment" where
  "greedy_loop D scan_delay max_speed max_delay st [] = Inr st"
| "greedy_loop D scan_delay max_speed max_delay st (sp # spawns) =
     (case assign_one D scan_delay max_speed max_delay st sp of
        Inl err \<Rightarrow> Inl err
      | Inr st' \<Rightarrow> greedy_loop D scan_delay max_speed max_delay st' spawns)"

definition greedy_assign ::
  "(coords \<Rightarrow> coords \<Rightarrow> real) \<Rightarrow> real \<Rightarrow> ext \<Rightarrow> ext \<Rightarrow> 'a spawn_scheme list \<Rightarrow> nat \<Rightarrow>
   py_error + 'a assignment" where
  "greedy_assign D scan_delay max_speed max_delay spawns n =
     greedy_loop D scan_delay max_speed max_delay (replicate n [], [], []) (sort_key time spawns)"

text \<open>
  \<open>assign_spawns\<close> itself: after \<open>greedy_assign\<close>, lines 559 to 567 tag every queued
  point with the index of its queue, join the queues and sort the result by time.
\<close>

definition assign_spawns ::
  "(coords \<Rightarrow> coords \<Rightarrow> real) \<Rightarrow> 'a spawn_scheme list \<Rightarrow> nat \<Rightarrow> real \<Rightarrow> ext \<Rightarrow> ext \<Rightarrow>
   py_error + 'a spawn_scheme list" where
  "assign_spawns D spawns num_workers scan_delay max_speed max_delay =
     (case greedy_assign D scan_delay max_speed max_delay spawns num_workers of
        Inl err \<Rightarrow> Inl err
      | Inr (Q, delays, bad) \<Rightarrow>
          Inr (sort_key time
                 (concat (map (\<lambda>(index, queue). map (\<lambda>sp. sp\<lparr>worker := Some index\<rparr>) queue)
                            (enumerate 0 Q)))))"

text \<open>What identifies a spawn point whatever its scan time and worker: its position and its other keys.\<close>

definition origin :: "'a spawn_scheme \<Rightarrow> real \<times> real \<times> 'a" where
  "origin sp = (lat sp, lng sp, spawn.more sp)"





section \<open>Properties of the time difference\<close>

lemma timeDif_closed_range: "- 3600 < a - b \<Longrightarrow> a - b < 3600 \<Longrightarrow>
    - 1800 \<le> timeDif a b \<and> timeDif a b \<le> 1800"
  by (simp add: timeDif_def Let_def)

lemma timeDif_swap: "timeDif a b = - timeDif b a"
  by (simp add: timeDif_def Let_def)

text \<open>
  Claim C5, as far as the code goes: for times past the hour \<open>a\<close>, \<open>b\<close> in
  \<open>[0, 3600)\<close> the difference \<open>timeDif a b\<close> lies in the closed interval
  \<open>[-1800, 1800]\<close>, both ends included, and \<open>timeDif a b = - timeDif b a\<close> holds
  at every pair, the boundary included.
\<close>

theorem timeDif_range_antisym:
  assumes "0 \<le> a" "a < 3600" "0 \<le> b" "b < 3600"
  shows "- 1800 \<le> timeDif a b \<and> timeDif a b \<le> 1800 \<and> timeDif a b = - timeDif b a"
proof -
  have "- 3600 < a - b" "a - b < 3600" using assms by simp_all
  then show ?thesis using timeDif_closed_range [of a b] timeDif_swap [of a b] by simp
qed

theorem timeDif_range_antisym_witness:
  "(0::real) \<le> 0 \<and> (0::real) < 3600 \<and> (0::real) \<le> 1800 \<and> (1800::real) < 3600 \<and>
   - 1800 \<le> timeDif 0 1800 \<and> timeDif 0 1800 \<le> 1800 \<and> timeDif 0 1800 = - timeDif 1800 0"
  using timeDif_range_antisym [of 0 1800] by simp

text \<open>
  The lower end of the interval is reached: half an hour apart, \<open>timeDif 0 1800\<close> is
  \<open>-1800\<close>, outside the half-open interval \<open>(-1800, 1800]\<close> of claim C5.
\<close>

theorem timeDif_half_open_counterexample:
  "\<not> (- 1800 < timeDif 0 1800 \<and> timeDif 0 1800 \<le> 1800)"
  by (simp add: timeDif_def Let_def)

section \<open>Properties of the schedule cursor\<close>

lemma item_in_range: "0 \<le> i \<Longrightarrow> i < int (length xs) \<Longrightarrow> item xs i = Inr (xs ! nat i)"
  by (simp add: item_def)

lemma SbSearch_loop_done: "\<not> first < last' \<Longrightarrow> SbSearch_loop Slist T first last' = Inr first"
  by (subst SbSearch_loop.simps) simp

lemma SbSearch_loop_lt:
  assumes "first < last'" "0 \<le> first" "last' < int (length Slist)"
    and "time (Slist ! nat ((first + last') div 2)) < T"
  shows "SbSearch_loop Slist T first last' = SbSearch_loop Slist T ((first + last') div 2 + 1) last'"
proof -
  have "item Slist ((first + last') div 2) = Inr (Slist ! nat ((first + last') div 2))"
    using assms by (intro item_in_range) simp_all
  then show ?thesis using assms by (subst SbSearch_loop.simps) (simp add: Let_def)
qed

lemma SbSearch_loop_ge:
  assumes "first < last'" "0 \<le> first" "last' < int (length Slist)"
    and "\<not> time (Slist ! nat ((first + last') div 2)) < T"
  shows "SbSearch_loop Slist T first last' = SbSearch_loop Slist T first ((first + last') div 2)"
proof -
  have "item Slist ((first + last') div 2) = Inr (Slist ! nat ((first + last') div 2))"
    using assms by (intro item_in_range) simp_all
  then show ?thesis using assms by (subst SbSearch_loop.simps) (simp add: Let_def)
qed

text \<open>The loop never leaves the window it was given, whatever the order of the list.\<close>

lemma SbSearch_loop_range:
  "0 \<le> first \<Longrightarrow> first \<le> last' \<Longrightarrow> last' < int (length Slist) \<Longrightarrow>
   \<exists>r. SbSearch_loop Slist T first last' = Inr r \<and> first \<le> r \<and> r \<le> last'"
proof (induction "nat (last' - first)" arbitrary: first last' rule: less_induct)
  case less
  show ?case
  proof (cases "first < last'")
    case False
    then show ?thesis using less.prems by (simp add: SbSearch_loop_done)
  next
    case True
    define mp where "mp = (first + last') div 2"
    have mp: "first \<le> mp" "mp < last'" using True by (simp_all add: mp_def)
    show ?thesis
    proof (cases "time (Slist ! nat mp) < T")
      case lt: True
      have "\<exists>r. SbSearch_loop Slist T (mp + 1) last' = Inr r \<and> mp + 1 \<le> r \<and> r \<le> last'"
        using mp less.prems by (intro less.hyps) simp_all
      moreover have "SbSearch_loop Slist T first last' = SbSearch_loop Slist T (mp + 1) last'"
        unfolding mp_def using True less.prems lt by (intro SbSearch_loop_lt) (simp_all add: mp_def)
      ultimately show ?thesis using mp by auto
    next
      case ge: False
      have "\<exists>r. SbSearch_loop Slist T first mp = Inr r \<and> first \<le> r \<and> r \<le> mp"
        using mp less.prems by (intro less.hyps) simp_all
      moreover have "SbSearch_loop Slist T first last' = SbSearch_loop Slist T first mp"
        unfolding mp_def using True less.prems ge by (intro SbSearch_loop_ge) (simp_all add: mp_def)
      ultimately show ?thesis using mp by auto
    qed
  qed
qed

text \<open>When every entry of the window below \<open>last'\<close> is too early, the loop ends on \<open>last'\<close>.\<close>

lemma SbSearch_loop_all_less:
  "0 \<le> first \<Longrightarrow> first \<le> last' \<Longrightarrow> last' < int (length Slist) \<Longrightarrow>
   (\<forall>j. first \<le> j \<and> j < last' \<longrightarrow> time (Slist ! nat j) < T) \<Longrightarrow>
   SbSearch_loop Slist T first last' = Inr last'"
proof (induction "nat (last' - first)" arbitrary: first rule: less_induct)
  case less
  show ?case
  proof (cases "first < last'")
    case False
    then show ?thesis using less.prems by (simp add: SbSearch_loop_done)
  next
    case True
    define mp where "mp = (first + last') div 2"
    have mp: "first \<le> mp" "mp < last'" using True by (simp_all add: mp_def)
    have lt: "time (Slist ! nat mp) < T" using less.prems(4) mp by blast
    have "SbSearch_loop Slist T first last' = SbSearch_loop Slist T (mp + 1) last'"
      unfolding mp_def using True less.prems(1,3) lt by (intro SbSearch_loop_lt) (simp_all add: mp_def)
    also have "\<dots> = Inr last'"
      using mp less.prems by (intro less.hyps) simp_all
    finally show ?thesis .
  qed
qed

text \<open>On a list sorted by time the loop keeps the lower bound inside its window.\<close>

lemma SbSearch_loop_lower_bound:
  "sorted (map time Slist) \<Longrightarrow> 0 \<le> first \<Longrightarrow> first \<le> last' \<Longrightarrow> last' < int (length Slist) \<Longrightarrow>
   (\<forall>j < nat first. time (Slist ! j) < T) \<Longrightarrow> T \<le> time (Slist ! nat last') \<Longrightarrow>
   \<exists>r. SbSearch_loop Slist T first last' = Inr r \<and> 0 \<le> r \<and> r \<le> last' \<and>
       T \<le> time (Slist ! nat r) \<and> (\<forall>j < nat r. time (Slist ! j) < T)"
proof (induction "nat (last' - first)" arbitrary: first last' rule: less_induct)
  case less
  show ?case
  proof (cases "first < last'")
    case False
    then have "first = last'" using less.prems by simp
    then show ?thesis using less.prems False by (simp add: SbSearch_loop_done)
  next
    case True
    define mp where "mp = (first + last') div 2"
    have mp: "first \<le> mp" "mp < last'" using True by (simp_all add: mp_def)
    show ?thesis
    proof (cases "time (Slist ! nat mp) < T")
      case lt: True
      have below: "\<forall>j < nat (mp + 1). time (Slist ! j) < T"
      proof (intro allI impI)
        fix j assume j: "j < nat (mp + 1)"
        then have "j \<le> nat mp" using mp less.prems by linarith
        moreover have "nat mp < length (map time Slist)" using mp less.prems by simp
        ultimately have "map time Slist ! j \<le> map time Slist ! nat mp"
          using less.prems(1) by (intro sorted_nth_mono) simp_all
        then show "time (Slist ! j) < T" using lt j mp less.prems by simp
      qed
      have "\<exists>r. SbSearch_loop Slist T (mp + 1) last' = Inr r \<and> 0 \<le> r \<and> r \<le> last' \<and>
          T \<le> time (Slist ! nat r) \<and> (\<forall>j < nat r. time (Slist ! j) < T)"
        using mp less.prems below by (intro less.hyps) simp_all
      moreover have "SbSearch_loop Slist T first last' = SbSearch_loop Slist T (mp + 1) last'"
        unfolding mp_def using True less.prems lt by (intro SbSearch_loop_lt) (simp_all add: mp_def)
      ultimately show ?thesis by simp
    next
      case ge: False
      have "\<exists>r. SbSearch_loop Slist T first mp = Inr r \<and> 0 \<le> r \<and> r \<le> mp \<and>
          T \<le> time (Slist ! nat r) \<and> (\<forall>j < nat r. time (Slist ! j) < T)"
        using mp less.prems ge by (intro less.hyps) simp_all
      moreover have "SbSearch_loop Slist T first last' = SbSearch_loop Slist T first mp"
        unfolding mp_def using True less.prems ge by (intro SbSearch_loop_ge) (simp_all add: mp_def)
      ultimately show ?thesis using mp by auto
    qed
  qed
qed

text \<open>
  Claim C7: on a nonempty list sorted ascending by time that holds an entry with time at
  least \<open>T\<close>, \<open>SbSearch\<close> returns the smallest index whose entry has time at least
  \<open>T\<close>.
\<close>

theorem SbSearch_smallest_index:
  assumes "Slist \<noteq> []" "sorted (map time Slist)" "\<exists>p \<in> set Slist. T \<le> time p"
  shows "\<exists>i. SbSearch Slist T = Inr (int i) \<and> i < length Slist \<and>
           T \<le> time (Slist ! i) \<and> (\<forall>j < i. time (Slist ! j) < T)"
proof -
  from assms(3) obtain k where k: "k < length Slist" "T \<le> time (Slist ! k)"
    by (auto simp: in_set_conv_nth)
  have len: "0 < length Slist" using assms(1) by simp
  have "map time Slist ! k \<le> map time Slist ! (length Slist - 1)"
    using assms(2) k(1) by (intro sorted_nth_mono) simp_all
  then have top: "T \<le> time (Slist ! nat (int (length Slist) - 1))"
    using k len by (simp add: nat_diff_distrib')
  have "\<exists>r. SbSearch_loop Slist T 0 (int (length Slist) - 1) = Inr r \<and> 0 \<le> r \<and>
      r \<le> int (length Slist) - 1 \<and> T \<le> time (Slist ! nat r) \<and> (\<forall>j < nat r. time (Slist ! j) < T)"
    using assms(2) len top by (intro SbSearch_loop_lower_bound) simp_all
  then obtain r where r: "SbSearch_loop Slist T 0 (int (length Slist) - 1) = Inr r" "0 \<le> r"
      "r \<le> int (length Slist) - 1" "T \<le> time (Slist ! nat r)" "\<forall>j < nat r. time (Slist ! j) < T"
    by blast
  have "SbSearch Slist T = Inr (int (nat r))" using r(1,2) by (simp add: SbSearch_def)
  moreover have "nat r < length Slist" using r(2,3) by linarith
  ultimately show ?thesis using r(4,5) by blast
qed

theorem SbSearch_smallest_index_witness:
  "[\<lparr>lat = 0, lng = 0, time = 10, worker = None\<rparr>, \<lparr>lat = 0, lng = 0, time = 20, worker = None\<rparr>,
    \<lparr>lat = 0, lng = 0, time = 30, worker = None\<rparr>] \<noteq> [] \<and>
   sorted (map time [\<lparr>lat = 0, lng = 0, time = 10, worker = None\<rparr>,
      \<lparr>lat = 0, lng = 0, time = 20, worker = None\<rparr>, \<lparr>lat = 0, lng = 0, time = 30, worker = None\<rparr>]) \<and>
   (\<exists>i. SbSearch [\<lparr>lat = 0, lng = 0, time = 10, worker = None\<rparr>,
      \<lparr>lat = 0, lng = 0, time = 20, worker = None\<rparr>, \<lparr>lat = 0, lng = 0, time = 30, worker = None\<rparr>] 15 = Inr (int i) \<and>
      i < 3 \<and>
      15 \<le> time ([\<lparr>lat = 0, lng = 0, time = 10, worker = None\<rparr>,
        \<lparr>lat = 0, lng = 0, time = 20, worker = None\<rparr>, \<lparr>lat = 0, lng = 0, time = 30, worker = None\<rparr>] ! i) \<and>
      (\<forall>j < i. time ([\<lparr>lat = 0, lng = 0, time = 10, worker = None\<rparr>,
        \<lparr>lat = 0, lng = 0, time = 20, worker = None\<rparr>, \<lparr>lat = 0, lng = 0, time = 30, worker = None\<rparr>] ! j) < 15))"
  using SbSearch_smallest_index [of "[\<lparr>lat = 0, lng = 0, time = 10, worker = None\<rparr>,
      \<lparr>lat = 0, lng = 0, time = 20, worker = None\<rparr>, \<lparr>lat = 0, lng = 0, time = 30, worker = None\<rparr>]" 15]
  by (simp add: numeral_3_eq_3)

text \<open>
  Claim C10: on a nonempty list, whatever its order and whatever the threshold,
  \<open>SbSearch\<close> returns an index between \<open>0\<close> and \<open>len(Slist) - 1\<close>; when every
  entry's time is strictly below \<open>T\<close> it returns the last index.
\<close>

theorem SbSearch_index_valid:
  assumes "Slist \<noteq> []"
  shows "\<exists>i. SbSearch Slist T = Inr i \<and> 0 \<le> i \<and> i \<le> int (length Slist) - 1 \<and>
           ((\<forall>p \<in> set Slist. time p < T) \<longrightarrow> i = int (length Slist) - 1)"
proof -
  have len: "0 < length Slist" using assms by simp
  have "\<exists>r. SbSearch_loop Slist T 0 (int (length Slist) - 1) = Inr r \<and> 0 \<le> r \<and>
      r \<le> int (length Slist) - 1"
    using len by (intro SbSearch_loop_range) simp_all
  then obtain r where r: "SbSearch Slist T = Inr r" "0 \<le> r" "r \<le> int (length Slist) - 1"
    by (auto simp: SbSearch_def)
  have "r = int (length Slist) - 1" if all: "\<forall>p \<in> set Slist. time p < T"
  proof -
    have "time (Slist ! nat j) < T" if "0 \<le> j \<and> j < int (length Slist) - 1" for j
    proof -
      have "nat j < length Slist" using that by linarith
      then show ?thesis using all nth_mem by blast
    qed
    then have "SbSearch_loop Slist T 0 (int (length Slist) - 1) = Inr (int (length Slist) - 1)"
      using len by (intro SbSearch_loop_all_less) simp_all
    then show ?thesis using r(1) by (simp add: SbSearch_def)
  qed
  then show ?thesis using r by blast
qed

theorem SbSearch_index_valid_witness:
  "[\<lparr>lat = 0, lng = 0, time = 10, worker = None\<rparr>, \<lparr>lat = 0, lng = 0, time = 20, worker = None\<rparr>] \<noteq> [] \<and>
   SbSearch [\<lparr>lat = 0, lng = 0, time = 10, worker = None\<rparr>,
     \<lparr>lat = 0, lng = 0, time = 20, worker = None\<rparr>] 25 = Inr 1"
  using SbSearch_index_valid [of "[\<lparr>lat = 0, lng = 0, time = 10, worker = None\<rparr>,
     \<lparr>lat = 0, lng = 0, time = 20, worker = None\<rparr>]" 25]
  by auto

section \<open>Properties of the location steps\<close>







section \<open>Properties of the worker sessions\<close>

lemma login_loop_not_too_many:
  "fst (login_loop e login_retries login_delay i w) \<noteq> Raised TooManyLoginAttempts"
proof (induction e login_retries login_delay i w rule: login_loop.induct)
  case (1 e login_retries login_delay i w)
  show ?case
  proof (cases "i < login_retries")
    case False
    then show ?thesis by (subst login_loop.simps) simp
  next
    case True
    show ?thesis
    proof (cases "set_authentication e (auth_calls w)")
      case AuthOk
      then show ?thesis using True by (subst login_loop.simps) (simp add: Let_def)
    next
      case AuthException
      then show ?thesis
        using True "1.IH" [OF True refl refl AuthException]
        by (subst login_loop.simps) (simp add: Let_def)
    next
      case AuthOther
      then show ?thesis using True by (subst login_loop.simps) (simp add: Let_def)
    qed
  qed
qed

text \<open>
  Whatever the collaborators answer and whatever \<open>login_retries\<close> is, \<open>check_login\<close>
  does not raise \<open>TooManyLoginAttempts\<close>: inside the loop \<open>i < login_retries\<close> holds,
  so the test \<open>i >= login_retries\<close> of the handler fails.
\<close>

lemma check_login_not_too_many:
  "fst (check_login e login_retries login_delay w) \<noteq> Raised TooManyLoginAttempts"
  using login_loop_not_too_many
    [of e login_retries login_delay 0 "emit [SetPosition] (w\<lparr>login_checks := login_checks w + 1\<rparr>)"]
  by (auto simp: check_login_def Let_def split: exit.splits)

text \<open>
  Claim C3 on the code: with \<open>login_retries = 3\<close>, no ticket and \<open>AuthException\<close> at
  every attempt, \<open>check_login\<close> makes three attempts, sleeping \<open>login_delay\<close> after
  each, and then returns normally after logging that the login was successful.
\<close>

theorem check_login_exhausted_returns:
  "check_login \<lparr>ticket_remaining = (\<lambda>n. None), set_authentication = (\<lambda>n. AuthException),
                map_objects = (\<lambda>n. NoResponse)\<rparr> 3 5
     \<lparr>success = 0, fail = 0, noitems = 0, skip = 0, message = None, sleep_time = None,
      trace = [], login_checks = 0, auth_calls = 0, map_calls = 0\<rparr> =
   (Normal,
    \<lparr>success = 0, fail = 0, noitems = 0, skip = 0, message = None, sleep_time = None,
     trace = [SetPosition,
              SetAuthentication, Log Login_failed, Sleep 5,
              SetAuthentication, Log Login_failed, Sleep 5,
              SetAuthentication, Log Login_failed, Sleep 5,
              Log Login_successful],
     login_checks = 1, auth_calls = 3, map_calls = 0\<rparr>)"
  by (simp add: check_login_def login_loop.simps emit_def Let_def)

lemma slept_append: "slept (xs @ ys) = slept xs + slept ys"
  by (induction xs rule: slept.induct) simp_all

lemma long_sleep_unfolded:
  "long_sleep 0 w =
     w\<lparr>message := Some Possibly_banned,
       trace := trace w @
         [Log Possibly_banned, Sleep 300, Log Possibly_banned, Sleep 300,
          Log Possibly_banned, Sleep 300, Log Possibly_banned, Sleep 300,
          Log Possibly_banned, Sleep 300, Log Possibly_banned, Sleep 300,
          Log Possibly_banned, Sleep 300, Log Possibly_banned, Sleep 300]\<rparr>"
  by (simp add: long_sleep.simps emit_def)

text \<open>
  The sleep after an abandoned job makes eight rounds of one log line and 300 seconds:
  2400 seconds, which is 40 minutes, whatever the worker did before.
\<close>

lemma long_sleep_total: "slept (trace (long_sleep 0 w)) = slept (trace w) + 2400"
  by (simp add: long_sleep_unfolded slept_append)

text \<open>
  Claim C2 on the code: a spawn-scan worker with \<open>scan_retries = 3\<close>,
  \<open>scan_delay = 5\<close> and a valid ticket gets three empty responses on one job. It backs
  off 5, 10 and 15 seconds, marks the job done without putting it back, and then sleeps
  eight times 300 seconds with a log line before each sleep: 2400 seconds (40 minutes),
  not the 7200 seconds of two hours.
\<close>

theorem abandoned_job_cooldown:
  "scan_loop_ss \<lparr>ticket_remaining = (\<lambda>n. Some 3600), set_authentication = (\<lambda>n. AuthOk),
                 map_objects = (\<lambda>n. NoResponse)\<rparr> 3 5 3 5 0
     \<lparr>success = 0, fail = 0, noitems = 0, skip = 0, message = None, sleep_time = None,
      trace = [], login_checks = 0, auth_calls = 0, map_calls = 0\<rparr> =
   (Normal,
    \<lparr>success = 0, fail = 3, noitems = 0, skip = 0, message = Some Possibly_banned,
     sleep_time = Some 15,
     trace = [Log Credentials_valid, MapRequest, Log Download_failed, Sleep 5,
              Log Credentials_valid, MapRequest, Log Download_failed, Sleep 10,
              Log Credentials_valid, MapRequest, Log Download_failed, Sleep 15,
              Log Abandoning, TaskDone,
              Log Possibly_banned, Sleep 300, Log Possibly_banned, Sleep 300,
              Log Possibly_banned, Sleep 300, Log Possibly_banned, Sleep 300,
              Log Possibly_banned, Sleep 300, Log Possibly_banned, Sleep 300,
              Log Possibly_banned, Sleep 300, Log Possibly_banned, Sleep 300],
     login_checks = 3, auth_calls = 0, map_calls = 3\<rparr>) \<and>
   slept [Log Possibly_banned, Sleep 300, Log Possibly_banned, Sleep 300,
          Log Possibly_banned, Sleep 300, Log Possibly_banned, Sleep 300,
          Log Possibly_banned, Sleep 300, Log Possibly_banned, Sleep 300,
          Log Possibly_banned, Sleep 300, Log Possibly_banned, Sleep 300] = 2400"
  by (simp add: scan_loop_ss.simps check_login_def long_sleep_unfolded emit_def Let_def)

text \<open>The grid worker of \<open>search_worker_thread\<close> sleeps the same 2400 seconds.\<close>

lemma scan_loop_abandons:
  "failed_total \<ge> scan_retries \<Longrightarrow>
   scan_loop e scan_retries scan_delay login_retries login_delay failed_total w =
     (Normal, long_sleep 0 (emit [Log Abandoning, TaskDone] (w\<lparr>message := Some Abandoning\<rparr>)))"
  by (subst scan_loop.simps) simp

subsection \<open>The staleness gate of the spawn-scan worker\<close>

lemma emit_fields [simp]:
  "trace (emit es w) = trace w @ es" "skip (emit es w) = skip w"
  by (simp_all add: emit_def)









section \<open>Properties of the spawn assigner\<close>

subsection \<open>One insertion\<close>

lemma origin_updates [simp]:
  "origin (sp\<lparr>time := t\<rparr>) = origin sp" "origin (sp\<lparr>worker := w\<rparr>) = origin sp"
  by (simp_all add: origin_def)

lemma first_index_le: "first_index l x \<le> length l"
  by (induction l) simp_all

lemma slot_le: "slot queue sp \<le> length queue"
  using first_index_le [of "map (\<lambda>p. time p \<le> time sp) queue" False]
  by (simp add: slot_def Let_def)

lemma placement_result:
  assumes "placement D scan_delay max_speed queue sp = Inr (k, sp', score)"
  shows "k = slot queue sp \<and> origin sp' = origin sp \<and> worker sp' = worker sp"
  using assms unfolding placement_def Let_def
  apply (simp only: split: if_split_asm sum.split_asm)
      apply (simp_all (no_asm_use) only: sum.inject prod.inject sum.distinct)
     apply (elim conjE, hypsubst, simp (no_asm))+
  done

lemma py_div_nonzero:
  "max_speed \<noteq> Fin 0 \<Longrightarrow> py_div d max_speed = Inr (case max_speed of Fin m \<Rightarrow> d / m | PInf \<Rightarrow> 0)"
  by (cases max_speed) simp_all

lemma placement_total:
  assumes "max_speed \<noteq> Fin 0"
  shows "\<exists>r. placement D scan_delay max_speed queue sp = Inr r"
  unfolding placement_def Let_def py_div_nonzero [OF assms]
  by (simp only: sum.case split: if_split) blast

lemma insert_spawn_total:
  assumes "max_speed \<noteq> Fin 0"
  shows "\<exists>r. insert_spawn D scan_delay max_speed queue sp dry = Inr r"
  using placement_total [OF assms, of D scan_delay queue sp]
  by (auto simp: insert_spawn_def split: sum.splits prod.splits)

lemma insert_spawn_dry:
  "insert_spawn D scan_delay max_speed queue sp True = Inr (queue', score) \<Longrightarrow> queue' = queue"
  by (auto simp: insert_spawn_def split: if_splits sum.splits prod.splits)

lemma insert_spawn_commit:
  assumes "insert_spawn D scan_delay max_speed queue sp True = Inr (queue1, score)"
  shows "\<exists>queue2. insert_spawn D scan_delay max_speed queue sp False = Inr (queue2, score) \<and>
           (if ext_less (fst score) PInf
            then mset (map origin queue2) = add_mset (origin sp) (mset (map origin queue))
            else queue2 = queue)"
proof (cases "length queue = 0")
  case True
  then show ?thesis using assms by (auto simp: insert_spawn_def ext_less_def)
next
  case False
  with assms obtain k sp' where pl: "placement D scan_delay max_speed queue sp = Inr (k, sp', score)"
    by (auto simp: insert_spawn_def split: sum.splits prod.splits)
  have k: "origin sp' = origin sp" using placement_result [OF pl] by simp
  have "mset (take k queue) + mset (drop k queue) = mset queue"
    by (simp flip: mset_append)
  then have "image_mset origin (mset (take k queue)) + image_mset origin (mset (drop k queue)) =
      image_mset origin (mset queue)"
    by (simp flip: image_mset_union)
  then have "mset (map origin (take k queue @ [sp'] @ drop k queue)) =
      add_mset (origin sp) (mset (map origin queue))"
    using k by simp
  then show ?thesis using False pl by (simp add: insert_spawn_def)
qed

subsection \<open>The choice of a worker\<close>

lemma py_min_from_mem: "py_min_from m xs \<in> set (m # xs)"
proof (induction xs arbitrary: m)
  case Nil
  show ?case by simp
next
  case (Cons x xs)
  have "py_min_from (if entry_less x m then x else m) xs \<in>
      set ((if entry_less x m then x else m) # xs)"
    by (rule Cons.IH)
  then show ?case by (cases "entry_less x m") (auto simp del: entry_less.simps)
qed

lemma py_min_mem:
  assumes "py_min xs = Inr m"
  shows "m \<in> set xs"
proof (cases xs)
  case Nil
  then show ?thesis using assms by simp
next
  case (Cons x ys)
  then have "m = py_min_from x ys" using assms by simp
  then show ?thesis using py_min_from_mem [of x ys] Cons by simp
qed

lemma dry_scores_total:
  assumes "max_speed \<noteq> Fin 0"
  shows "\<exists>scores. dry_scores D scan_delay max_speed i Q sp = Inr scores \<and> length scores = length Q"
proof (induction Q arbitrary: i)
  case Nil
  show ?case by simp
next
  case (Cons q Q)
  obtain r where r: "insert_spawn D scan_delay max_speed q sp True = Inr r"
    using insert_spawn_total [OF assms] by blast
  obtain rest where "dry_scores D scan_delay max_speed (Suc i) Q sp = Inr rest" "length rest = length Q"
    using Cons.IH by blast
  then show ?case using r by simp
qed

lemma dry_scores_entries:
  assumes "dry_scores D scan_delay max_speed i Q sp = Inr scores" "(s, j) \<in> set scores"
  shows "i \<le> j \<and> j < i + length Q \<and>
         (\<exists>q'. insert_spawn D scan_delay max_speed (Q ! (j - i)) sp True = Inr (q', s))"
  using assms
proof (induction Q arbitrary: i scores)
  case Nil
  then show ?case by simp
next
  case (Cons q Q)
  from Cons.prems(1) obtain r rest where r: "insert_spawn D scan_delay max_speed q sp True = Inr r"
    and rest: "dry_scores D scan_delay max_speed (Suc i) Q sp = Inr rest"
    and scores: "scores = (snd r, i) # rest"
    by (auto split: sum.splits)
  show ?case
  proof (cases "(s, j) = (snd r, i)")
    case True
    then have "insert_spawn D scan_delay max_speed ((q # Q) ! (j - i)) sp True = Inr (fst r, s)"
      using r by (cases r) simp
    then have "\<exists>q'. insert_spawn D scan_delay max_speed ((q # Q) ! (j - i)) sp True = Inr (q', s)"
      by (rule exI)
    then show ?thesis using True by simp
  next
    case False
    then have "(s, j) \<in> set rest" using Cons.prems(2) scores by auto
    from Cons.IH [OF rest this]
    have "Suc i \<le> j" "j < Suc i + length Q"
      "\<exists>q'. insert_spawn D scan_delay max_speed (Q ! (j - Suc i)) sp True = Inr (q', s)"
      by simp_all
    moreover have "(q # Q) ! (j - i) = Q ! (j - Suc i)"
      using \<open>Suc i \<le> j\<close> by (simp add: nth_Cons' Suc_le_eq)
    ultimately show ?thesis by simp
  qed
qed

lemma mset_concat_update:
  assumes "i < length Q"
  shows "mset (map f (concat (Q[i := q]))) + mset (map f (Q ! i)) =
         mset (map f (concat Q)) + mset (map f q)"
proof -
  have "concat Q = concat (take i Q) @ Q ! i @ concat (drop (Suc i) Q)"
    using assms by (subst id_take_nth_drop [OF assms]) simp
  moreover have "concat (Q[i := q]) = concat (take i Q) @ q @ concat (drop (Suc i) Q)"
    using assms by (simp add: upd_conv_take_nth_drop)
  ultimately show ?thesis by simp
qed

text \<open>
  With at least one worker, a usable speed limit and a finite \<open>max_delay\<close>, one round
  of the loop either commits the point to one queue or appends it to \<open>bad\<close>.
\<close>

lemma assign_one_step:
  assumes "Q \<noteq> []" "max_speed \<noteq> Fin 0"
  shows "\<exists>Q' delays' bad'.
           assign_one D scan_delay max_speed (Fin md) (Q, delays, bad) sp = Inr (Q', delays', bad') \<and>
           length Q' = length Q \<and>
           ((bad' = bad \<and>
             mset (map origin (concat Q')) = add_mset (origin sp) (mset (map origin (concat Q)))) \<or>
            (Q' = Q \<and> bad' = bad @ [sp]))"
proof -
  obtain scores where scores: "dry_scores D scan_delay max_speed 0 Q sp = Inr scores"
      "length scores = length Q"
    using dry_scores_total [OF assms(2)] by blast
  then have "scores \<noteq> []" using assms(1) by auto
  then obtain min_score min_index where m: "py_min scores = Inr (min_score, min_index)"
    by (cases scores) (auto simp: prod_eq_iff)
  have "(min_score, min_index) \<in> set scores" using py_min_mem [OF m] .
  from dry_scores_entries [OF scores(1) this]
  obtain q' where idx: "min_index < length Q"
    and dry: "insert_spawn D scan_delay max_speed (Q ! min_index) sp True = Inr (q', min_score)"
    by auto
  from insert_spawn_commit [OF dry]
  obtain queue2 where ins: "insert_spawn D scan_delay max_speed (Q ! min_index) sp False = Inr (queue2, min_score)"
    and eff: "if ext_less (fst min_score) PInf
              then mset (map origin queue2) = add_mset (origin sp) (mset (map origin (Q ! min_index)))
              else queue2 = Q ! min_index"
    by blast
  show ?thesis
  proof (cases "ext_le (fst min_score) (Fin md)")
    case False
    then show ?thesis using scores(1) m by (simp add: assign_one_def)
  next
    case True
    then have "ext_less (fst min_score) PInf"
      by (cases "fst min_score") (simp_all add: ext_less_def)
    then have q2: "mset (map origin queue2) = add_mset (origin sp) (mset (map origin (Q ! min_index)))"
      using eff by simp
    have "mset (map origin (concat (Q[min_index := queue2]))) + mset (map origin (Q ! min_index)) =
        mset (map origin (concat Q)) + mset (map origin queue2)"
      by (rule mset_concat_update [OF idx])
    then have "mset (map origin (concat (Q[min_index := queue2]))) =
        add_mset (origin sp) (mset (map origin (concat Q)))"
      unfolding q2 by simp
    then show ?thesis using scores(1) m True ins by (simp add: assign_one_def Let_def)
  qed
qed

lemma greedy_loop_partition:
  assumes "Q \<noteq> []" "max_speed \<noteq> Fin 0"
  shows "\<exists>Q' delays' bad'.
           greedy_loop D scan_delay max_speed (Fin md) (Q, delays, bad) xs = Inr (Q', delays', bad') \<and>
           length Q' = length Q \<and>
           mset (map origin (concat Q')) + mset (map origin bad') =
             mset (map origin (concat Q)) + mset (map origin bad) + mset (map origin xs) \<and>
           mset bad' \<subseteq># mset bad + mset xs"
  using assms(1)
proof (induction xs arbitrary: Q delays bad)
  case Nil
  show ?case by simp
next
  case (Cons sp xs)
  from assign_one_step [OF Cons.prems assms(2), of D scan_delay md delays bad sp]
  obtain Q1 delays1 bad1 where
    one: "assign_one D scan_delay max_speed (Fin md) (Q, delays, bad) sp = Inr (Q1, delays1, bad1)"
    and len1: "length Q1 = length Q"
    and eff: "(bad1 = bad \<and>
        mset (map origin (concat Q1)) = add_mset (origin sp) (mset (map origin (concat Q)))) \<or>
        (Q1 = Q \<and> bad1 = bad @ [sp])"
    by blast
  have "Q1 \<noteq> []" using len1 Cons.prems by auto
  from Cons.IH [OF this, of delays1 bad1]
  obtain Q' delays' bad' where
    rest: "greedy_loop D scan_delay max_speed (Fin md) (Q1, delays1, bad1) xs = Inr (Q', delays', bad')"
    and len: "length Q' = length Q1"
    and part: "mset (map origin (concat Q')) + mset (map origin bad') =
        mset (map origin (concat Q1)) + mset (map origin bad1) + mset (map origin xs)"
    and sub: "mset bad' \<subseteq># mset bad1 + mset xs"
    by blast
  have step: "mset (map origin (concat Q1)) + mset (map origin bad1) =
      add_mset (origin sp) (mset (map origin (concat Q)) + mset (map origin bad))"
    using eff by auto
  have "mset bad1 \<subseteq># mset bad + {#sp#}" using eff by auto
  then have "mset bad1 + mset xs \<subseteq># mset bad + mset (sp # xs)"
    by (simp add: subset_mset.add_mono)
  then have sub': "mset bad' \<subseteq># mset bad + mset (sp # xs)"
    using sub by (rule subset_mset.order_trans [rotated])
  have "greedy_loop D scan_delay max_speed (Fin md) (Q, delays, bad) (sp # xs) = Inr (Q', delays', bad')"
    using one rest by simp
  moreover have "mset (map origin (concat Q')) + mset (map origin bad') =
      mset (map origin (concat Q)) + mset (map origin bad) + mset (map origin (sp # xs))"
    unfolding part step by simp
  ultimately show ?case using len len1 sub'
    by (intro exI [of _ Q'] exI [of _ delays'] exI [of _ bad']) simp
qed

subsection \<open>The partition of the input\<close>

lemma tagged_origins:
  "mset (map origin (concat (map (\<lambda>(index, queue). map (\<lambda>sp. sp\<lparr>worker := Some index\<rparr>) queue)
      (enumerate n Q)))) = mset (map origin (concat Q))"
  by (induction Q arbitrary: n) (simp_all add: comp_def)

lemma tagged_members:
  assumes "sp \<in> set (concat (map (\<lambda>(index, queue). map (\<lambda>sp. sp\<lparr>worker := Some index\<rparr>) queue)
      (enumerate 0 Q)))"
  shows "\<exists>w < length Q. worker sp = Some w \<and> (\<exists>p \<in> set (Q ! w). sp = p\<lparr>worker := Some w\<rparr>)"
proof -
  from assms obtain w q p where "(w, q) \<in> set (enumerate 0 Q)" "p \<in> set q"
    "sp = p\<lparr>worker := Some w\<rparr>"
    by auto
  then have "w < length Q" "p \<in> set (Q ! w)" "worker sp = Some w" "sp = p\<lparr>worker := Some w\<rparr>"
    by (auto simp: in_set_enumerate_eq)
  then show ?thesis by blast
qed

text \<open>
  Where \<open>assign_spawns\<close> does partition its input: with at least one worker, a
  \<open>max_speed\<close> other than zero and a finite \<open>max_delay\<close> it returns, and every input
  spawn point is either in the returned schedule, tagged with the index of the queue it
  was committed to, or in the list \<open>bad\<close> of rejected points, once: the positions and
  other keys of schedule and \<open>bad\<close> together are those of the input, as multisets, and
  \<open>bad\<close> holds input points unchanged. The returned schedule is sorted ascending by
  time.
\<close>

lemma assign_spawns_partition:
  assumes "0 < num_workers" "max_speed \<noteq> Fin 0"
  shows "\<exists>Q delays bad result.
     greedy_assign D scan_delay max_speed (Fin md) spawns num_workers = Inr (Q, delays, bad) \<and>
     assign_spawns D spawns num_workers scan_delay max_speed (Fin md) = Inr result \<and>
     length Q = num_workers \<and>
     mset (map origin result) + mset (map origin bad) = mset (map origin spawns) \<and>
     mset bad \<subseteq># mset spawns \<and>
     sorted (map time result) \<and>
     (\<forall>sp \<in> set result. \<exists>w < num_workers. worker sp = Some w \<and>
        (\<exists>p \<in> set (Q ! w). sp = p\<lparr>worker := Some w\<rparr>))"
proof -
  have "replicate num_workers ([] :: 'a spawn_scheme list) \<noteq> []" using assms(1) by simp
  from greedy_loop_partition [OF this assms(2), of D scan_delay md "[]" "[]" "sort_key time spawns"]
  obtain Q delays bad where
    run: "greedy_assign D scan_delay max_speed (Fin md) spawns num_workers = Inr (Q, delays, bad)"
    and len: "length Q = num_workers"
    and part: "mset (map origin (concat Q)) + mset (map origin bad) = mset (map origin spawns)"
    and sub: "mset bad \<subseteq># mset spawns"
    by (auto simp: greedy_assign_def)
  define tagged where "tagged =
    concat (map (\<lambda>(index, queue). map (\<lambda>sp. sp\<lparr>worker := Some index\<rparr>) queue) (enumerate 0 Q))"
  define result where "result = sort_key time tagged"
  have res: "assign_spawns D spawns num_workers scan_delay max_speed (Fin md) = Inr result"
    using run by (simp add: assign_spawns_def result_def tagged_def)
  have "mset (map origin result) = mset (map origin tagged)"
    by (simp add: result_def)
  also have "\<dots> = mset (map origin (concat Q))"
    unfolding tagged_def by (rule tagged_origins)
  finally have part': "mset (map origin result) + mset (map origin bad) = mset (map origin spawns)"
    using part by simp
  have srt: "sorted (map time result)" by (simp add: result_def)
  have tag: "\<forall>sp \<in> set result. \<exists>w < num_workers. worker sp = Some w \<and>
        (\<exists>p \<in> set (Q ! w). sp = p\<lparr>worker := Some w\<rparr>)"
  proof
    fix sp assume "sp \<in> set result"
    then have "sp \<in> set tagged" by (simp add: result_def)
    from tagged_members [OF this [unfolded tagged_def]] len
    show "\<exists>w < num_workers. worker sp = Some w \<and> (\<exists>p \<in> set (Q ! w). sp = p\<lparr>worker := Some w\<rparr>)"
      by simp
  qed
  show ?thesis using run res len part' sub srt tag by blast
qed

lemma assign_spawns_partition_example:
  "(0::nat) < 1 \<and> Fin 1 \<noteq> Fin 0 \<and>
   (\<exists>Q delays bad result.
     greedy_assign (\<lambda>a b. if a = b then 0 else 100000) 10 (Fin 1)
        (Fin 60) [\<lparr>lat = 0, lng = 0, time = 0, worker = None\<rparr>,
        \<lparr>lat = 1, lng = 1, time = 0, worker = None\<rparr>] 1 = Inr (Q, delays, bad) \<and>
     assign_spawns (\<lambda>a b. if a = b then 0 else 100000)
       [\<lparr>lat = 0, lng = 0, time = 0, worker = None\<rparr>,
        \<lparr>lat = 1, lng = 1, time = 0, worker = None\<rparr>] 1 10 (Fin 1) (Fin 60) = Inr result \<and>
     length Q = 1 \<and>
     mset (map origin result) + mset (map origin bad) = mset (map origin [\<lparr>lat = 0, lng = 0, time = 0, worker = None\<rparr>,
        \<lparr>lat = 1, lng = 1, time = 0, worker = None\<rparr>]) \<and>
     mset bad \<subseteq># mset [\<lparr>lat = 0, lng = 0, time = 0, worker = None\<rparr>,
        \<lparr>lat = 1, lng = 1, time = 0, worker = None\<rparr>] \<and>
     sorted (map time result) \<and>
     (\<forall>sp \<in> set result. \<exists>w < 1. worker sp = Some w \<and>
        (\<exists>p \<in> set (Q ! w). sp = p\<lparr>worker := Some w\<rparr>)))"
proof -
  have h1: "(0::nat) < 1" by simp
  have h2: "Fin 1 \<noteq> Fin 0" by simp
  show ?thesis
    using h1 h2 assign_spawns_partition [OF h1 h2, of "\<lambda>a b. if a = b then 0 else 100000" 10 60 "[\<lparr>lat = 0, lng = 0, time = 0, worker = None\<rparr>,
        \<lparr>lat = 1, lng = 1, time = 0, worker = None\<rparr>]"]
    by blast
qed

text \<open>
  Claim C9 against the code: two points at the same time, 100 km apart, one worker,
  \<open>max_speed\<close> 1 m/s, and no limit on the delay (\<open>max_delay\<close> infinite). The second
  point cannot be reached, its best cost is \<open>(inf, 0, 0, 0)\<close>. The test
  \<open>delay <= max_delay\<close> of line 531 lets it through to the committing call of
  \<open>insert\<close>, which leaves the queue as it is (\<open>score[0] < inf\<close> fails), and the point is
  not appended to \<open>bad\<close>: it is in neither the schedule nor \<open>bad\<close>, only its infinite
  delay is recorded. With a \<open>max_delay\<close> of 60 seconds the same point is in \<open>bad\<close>.
\<close>

theorem assign_spawns_silent_drop:
  "greedy_assign (\<lambda>a b. if a = b then 0 else 100000) 10 (Fin 1)
        PInf [\<lparr>lat = 0, lng = 0, time = 0, worker = None\<rparr>,
        \<lparr>lat = 1, lng = 1, time = 0, worker = None\<rparr>] 1 = Inr ([[\<lparr>lat = 0, lng = 0, time = 0, worker = None\<rparr>]], [PInf], []) \<and>
   assign_spawns (\<lambda>a b. if a = b then 0 else 100000)
       [\<lparr>lat = 0, lng = 0, time = 0, worker = None\<rparr>,
        \<lparr>lat = 1, lng = 1, time = 0, worker = None\<rparr>] 1 10 (Fin 1) PInf = Inr [\<lparr>lat = 0, lng = 0, time = 0, worker = Some 0\<rparr>] \<and>
   greedy_assign (\<lambda>a b. if a = b then 0 else 100000) 10 (Fin 1)
        (Fin 60) [\<lparr>lat = 0, lng = 0, time = 0, worker = None\<rparr>,
        \<lparr>lat = 1, lng = 1, time = 0, worker = None\<rparr>] 1 =
     Inr ([[\<lparr>lat = 0, lng = 0, time = 0, worker = None\<rparr>]], [],
          [\<lparr>lat = 1, lng = 1, time = 0, worker = None\<rparr>])"
  by (simp add: assign_spawns_def greedy_assign_def assign_one_def insert_spawn_def placement_def
      slot_def speed_def dist_sp_def py_mod_def ext_less_def ext_max_def Let_def)

subsection \<open>Where a committed point lands\<close>










subsection \<open>One step of the greedy loop\<close>








end
